theory Spec2Isabelle
  imports Complex_Main "HOL-Library.Word"
begin

section \<open>The watermeter package (watermeter.go)\<close>

text \<open>
  The package keeps a running total of 1/1000 gallon units, a history of
  (time, total) entries with the newest entry at the front, and the entry of the
  last whole-gallon crossing. Every method is modelled as a function on the
  \<open>Watermeter\<close> struct; the instant that \<open>w.now()\<close> returns inside a call
  is an argument of the model of that call.
\<close>

subsection \<open>Library types: time.Time, time.Duration, uint64, float64\<close>

text \<open>
  \<open>time.Duration\<close> is an int64 count of nanoseconds: a 64-bit word read with
  \<open>sint\<close>. \<open>time.Time\<close> is an instant; it is modelled as an integer count of
  nanoseconds on one time line (the representable range of \<open>time.Time\<close> is
  not modelled). \<open>uint64\<close> is a 64-bit word read with \<open>unat\<close>; \<open>+\<close>, \<open>-\<close>
  wrap around and \<open>div\<close> is the unsigned division.
\<close>

type_synonym Time = int
type_synonym Duration = "64 word"
type_synonym uint64 = "64 word"

definition minDuration :: Duration where
  "minDuration = word_of_int (- (2 ^ 63))"

definition maxDuration :: Duration where
  "maxDuration = word_of_int (2 ^ 63 - 1)"

definition Add :: "Time \<Rightarrow> Duration \<Rightarrow> Time" where
  "Add t d = t + sint d"

definition Before :: "Time \<Rightarrow> Time \<Rightarrow> bool" where
  "Before t u = (t < u)"

definition Equal :: "Time \<Rightarrow> Time \<Rightarrow> bool" where
  "Equal t u = (t = u)"

text \<open>\<open>t.Sub(u)\<close> saturates at the smallest and the largest Duration.\<close>

definition Sub :: "Time \<Rightarrow> Time \<Rightarrow> Duration" where
  "Sub t u =
     (if t - u < - (2 ^ 63) then minDuration
      else if 2 ^ 63 - 1 < t - u then maxDuration
      else word_of_int (t - u))"

text \<open>
  A float64 is a finite number, an infinity or NaN. A finite value stands for the
  number that the float approximates: rounding to the 53-bit significand and the
  sign of zero are not modelled (every zero divisor that occurs below is +0).
  \<open>fdiv\<close> is the IEEE 754 division, which Go's \<open>/\<close> on float64 performs without
  any run-time panic.
\<close>

datatype float64 = Fin rat | PInf | NInf | NaN

fun fdiv :: "float64 \<Rightarrow> float64 \<Rightarrow> float64" where
  "fdiv NaN y = NaN"
| "fdiv x NaN = NaN"
| "fdiv (Fin a) (Fin b) =
     (if b = 0 then (if a = 0 then NaN else if 0 < a then PInf else NInf)
      else Fin (a / b))"
| "fdiv (Fin a) y = Fin 0"
| "fdiv PInf (Fin b) = (if 0 \<le> b then PInf else NInf)"
| "fdiv NInf (Fin b) = (if 0 \<le> b then NInf else PInf)"
| "fdiv x y = NaN"

definition float64_of_uint64 :: "uint64 \<Rightarrow> float64" where
  "float64_of_uint64 v = Fin (of_nat (unat v))"

text \<open>\<open>d.Minutes()\<close>: the duration as a floating-point number of minutes.\<close>

definition Minutes :: "Duration \<Rightarrow> float64" where
  "Minutes d = Fin (of_int (sint d) / 60000000000)"

subsection \<open>The structs\<close>

record entry =
  time :: Time
  total :: uint64

text \<open>
  The fields \<open>Usage\<close> and \<open>Change\<close> hold callbacks; the model keeps whether one
  is registered (\<open>nil != w.Usage\<close>) and returns the calls that a method
  dispatches. \<open>events\<close> is the \<open>list.List\<close>, front first. The clock \<open>now\<close> is
  the extra argument of each method; the mutex is not part of the modelled state
  (a call runs from start to end on its own, except where GetFlow is put beside a
  concurrent Update).
\<close>

record Watermeter =
  Timeout :: Duration
  Usage :: bool
  Change :: bool
  lastGallon :: entry
  total :: uint64
  events :: "entry list"

datatype call = Change_call | Usage_call uint64 float64

datatype error = NilDereference

text \<open>The struct literal \<open>Watermeter{Timeout: t, Usage: u, Change: c}\<close>.\<close>

definition new_Watermeter :: "Duration \<Rightarrow> bool \<Rightarrow> bool \<Rightarrow> Watermeter" where
  "new_Watermeter t u c =
     \<lparr>Timeout = t, Usage = u, Change = c,
      lastGallon = \<lparr>time = 0, entry.total = 0\<rparr>,
      Watermeter.total = 0, events = []\<rparr>"

subsection \<open>Init\<close>

definition Init :: "Watermeter \<Rightarrow> Time \<Rightarrow> uint64 \<Rightarrow> Watermeter" where
  "Init w now initial =
     (let e = \<lparr>time = now, entry.total = initial\<rparr>
      in w\<lparr>Watermeter.total := initial, events := [e], lastGallon := e\<rparr>)"

subsection \<open>GetFlow and GetGallons\<close>

text \<open>
  The loop of GetFlow walks the list from the front; \<open>item = nil\<close> ends it, at
  the end of the list or at the first entry that is older than \<open>then\<close>.
\<close>

fun GetFlow_loop :: "Time \<Rightarrow> entry list \<Rightarrow> entry \<Rightarrow> entry" where
  "GetFlow_loop thn [] start = start"
| "GetFlow_loop thn (e # item_next) start =
     (if Equal thn (time e) \<or> Before thn (time e)
      then GetFlow_loop thn item_next (start\<lparr>time := time e, entry.total := entry.total e\<rparr>)
      else start)"

text \<open>
  GetFlow in its three parts: the reads before \<open>w.mutex.Lock()\<close> (then, end and
  start), the loop between Lock and Unlock, and the arithmetic after Unlock.
\<close>

definition GetFlow_reads :: "Watermeter \<Rightarrow> Time \<Rightarrow> Duration \<Rightarrow> Time \<times> entry \<times> entry" where
  "GetFlow_reads w now duration =
     (Add now (- duration),
      \<lparr>time = now, entry.total = Watermeter.total w\<rparr>,
      \<lparr>time = now, entry.total = Watermeter.total w\<rparr>)"

definition GetFlow_locked :: "Watermeter \<Rightarrow> Time \<Rightarrow> entry \<Rightarrow> entry" where
  "GetFlow_locked w thn start = GetFlow_loop thn (events w) start"

definition GetFlow_return :: "entry \<Rightarrow> entry \<Rightarrow> Duration \<Rightarrow> float64" where
  "GetFlow_return end_e start duration =
     (let volumeDelta = entry.total end_e - entry.total start
      in fdiv (fdiv (float64_of_uint64 volumeDelta) (Fin 1000)) (Minutes duration))"

definition GetFlow :: "Watermeter \<Rightarrow> Time \<Rightarrow> Duration \<Rightarrow> float64 \<times> Watermeter" where
  "GetFlow w now duration =
     (case GetFlow_reads w now duration of
        (thn, end_e, start) \<Rightarrow>
          (GetFlow_return end_e (GetFlow_locked w thn start) duration, w))"

definition GetGallons :: "Watermeter \<Rightarrow> uint64 \<times> Watermeter" where
  "GetGallons w = (Watermeter.total w div 1000, w)"

subsection \<open>Update\<close>

text \<open>
  One pass through the body of the pruning loop: the list after it and the flag
  \<open>done\<close>. \<open>w.events.Back()\<close> is nil on an empty list and \<open>item.Value\<close> then
  panics.
\<close>

definition prune_body :: "Time \<Rightarrow> entry list \<Rightarrow> error + (entry list \<times> bool)" where
  "prune_body prune evs =
     (if evs = [] then Inl NilDereference
      else
        (let e = last evs;
             (evs1, done1) = (if Before (time e) prune then (butlast evs, False) else (evs, True));
             done2 = (if 3 > length evs1 then True else done1)
         in Inr (evs1, done2)))"

function prune_loop :: "Time \<Rightarrow> entry list \<Rightarrow> error + entry list" where
  "prune_loop prune evs =
     (case prune_body prune evs of
        Inl err \<Rightarrow> Inl err
      | Inr (evs', done) \<Rightarrow> if done then Inr evs' else prune_loop prune evs')"
  by pat_completeness auto
termination
  by (relation "measure (\<lambda>(prune, evs). length evs)")
     (auto simp: prune_body_def Let_def split: if_splits)

declare prune_loop.simps [simp del]

text \<open>
  The flow that Update hands to the Usage callback: \<open>float64(e.total -
  w.lastGallon.total) / 1000\<close>, then divided by
  \<open>e.time.Sub(w.lastGallon.time).Minutes()\<close>.
\<close>

definition Usage_flow :: "entry \<Rightarrow> entry \<Rightarrow> float64" where
  "Usage_flow e last_gallon =
     (let flow = fdiv (float64_of_uint64 (entry.total e - entry.total last_gallon)) (Fin 1000)
      in fdiv flow (Minutes (Sub (time e) (time last_gallon))))"

text \<open>
  \<open>mGallons\<close> is a \<open>uint\<close> that the code converts with \<open>uint64(mGallons)\<close>; the
  model takes the converted value. The calls are the goroutines started, in the
  order of the \<open>go\<close> statements.
\<close>

definition Update :: "Watermeter \<Rightarrow> Time \<Rightarrow> uint64 \<Rightarrow> error + (Watermeter \<times> call list)" where
  "Update w now mGallons =
     (let prune = Add now (- Timeout w);
          before = Watermeter.total w div 1000;
          total' = Watermeter.total w + mGallons;
          after = total' div 1000;
          e = \<lparr>time = now, entry.total = total'\<rparr>
      in case prune_loop prune (e # events w) of
           Inl err \<Rightarrow> Inl err
         | Inr evs \<Rightarrow>
             (let w1 = w\<lparr>Watermeter.total := total', events := evs\<rparr>;
                  change_calls = (if Change w1 then [Change_call] else [])
              in if 0 < after - before then
                   (let usage_calls =
                          (if Usage w1 then [Usage_call after (Usage_flow e (lastGallon w1))]
                           else [])
                    in Inr (w1\<lparr>lastGallon := e\<rparr>, change_calls @ usage_calls))
                 else Inr (w1, change_calls)))"

text \<open>
  The pruning in the words of the design: while the history holds more than 2
  samples and the oldest sample is strictly older than the pruning instant,
  remove the oldest sample.
\<close>

function prune_spec :: "Time \<Rightarrow> entry list \<Rightarrow> entry list" where
  "prune_spec prune evs =
     (if 2 < length evs \<and> Before (time (last evs)) prune
      then prune_spec prune (butlast evs) else evs)"
  by pat_completeness auto
termination
  by (relation "measure (\<lambda>(prune, evs). length evs)") auto

declare prune_spec.simps [simp del]

text \<open>A sequence of Update calls, each with the instant its \<open>w.now()\<close> returns.\<close>

fun Updates :: "Watermeter \<Rightarrow> (Time \<times> uint64) list \<Rightarrow> error + Watermeter" where
  "Updates w [] = Inr w"
| "Updates w ((now, mGallons) # rest) =
     (case Update w now mGallons of
        Inl err \<Rightarrow> Inl err
      | Inr (w', calls) \<Rightarrow> Updates w' rest)"

subsection \<open>The design's wording of GetFlow, and GetFlow beside a concurrent Update\<close>

text \<open>\<open>time.Minute\<close>.\<close>

definition minute :: Duration where
  "minute = 60000000000"

text \<open>
  In the words of the design: the oldest sample of the history whose timestamp is
  \<open>>= thn\<close>. The history is newest first, so it is the last of the samples
  that qualify.
\<close>

definition oldest_in_window_spec :: "Time \<Rightarrow> entry list \<Rightarrow> entry option" where
  "oldest_in_window_spec thn evs =
     (case filter (\<lambda>e. thn \<le> time e) evs of
        [] \<Rightarrow> None
      | e # es \<Rightarrow> Some (last (e # es)))"

text \<open>
  The rate in the words of the design: start is the oldest sample inside the
  window, or the end point when no sample qualifies, and the rate is
  (end.total - start.total) / 1000 / minutes.
\<close>

definition GetFlow_spec :: "Watermeter \<Rightarrow> Time \<Rightarrow> Duration \<Rightarrow> float64" where
  "GetFlow_spec w now duration =
     (let end_total = Watermeter.total w;
          start_total = (case oldest_in_window_spec (now - sint duration) (events w) of
                           None \<Rightarrow> end_total
                         | Some start \<Rightarrow> entry.total start)
      in Fin (of_nat (unat (end_total - start_total)) / 1000 /
              (of_int (sint duration) / 60000000000)))"

text \<open>
  A call of GetFlow that does its reads on the struct \<open>w\<close>, while the loop
  under the mutex sees the struct \<open>w'\<close>: another goroutine has held the mutex
  between the two parts and has changed \<open>w\<close> into \<open>w'\<close>.
\<close>

definition GetFlow_between :: "Watermeter \<Rightarrow> Watermeter \<Rightarrow> Time \<Rightarrow> Duration \<Rightarrow> float64" where
  "GetFlow_between w w' now duration =
     (case GetFlow_reads w now duration of
        (thn, end_e, start) \<Rightarrow> GetFlow_return end_e (GetFlow_locked w' thn start) duration)"

section \<open>Properties\<close>

subsection \<open>The pruning loop\<close>

lemma prune_loop_unfold:
  "prune_loop p evs =
     (if evs = [] then Inl NilDereference
      else if time (last evs) < p
           then (if length (butlast evs) < 3 then Inr (butlast evs)
                 else prune_loop p (butlast evs))
           else Inr evs)"
  by (subst prune_loop.simps) (simp add: prune_body_def Before_def Let_def)

lemma prune_loop_returns: "evs \<noteq> [] \<Longrightarrow> \<exists>evs'. prune_loop p evs = Inr evs'"
proof (induction "length evs" arbitrary: evs rule: less_induct)
  case less
  show ?case
  proof (cases "time (last evs) < p \<and> \<not> length (butlast evs) < 3")
    case True
    then have "0 < length (butlast evs)" by linarith
    then have "butlast evs \<noteq> []" by (simp del: length_butlast)
    moreover have "length (butlast evs) < length evs" using less.prems by simp
    ultimately obtain evs' where "prune_loop p (butlast evs) = Inr evs'"
      using less.hyps by blast
    with True less.prems show ?thesis
      by (subst prune_loop_unfold) simp
  next
    case False
    with less.prems show ?thesis
      by (subst prune_loop_unfold) auto
  qed
qed

lemma prune_loop_take:
  "2 \<le> length evs \<Longrightarrow> prune_loop p evs = Inr evs' \<Longrightarrow>
     \<exists>n. 0 < n \<and> n \<le> length evs \<and> evs' = take n evs"
proof (induction "length evs" arbitrary: evs rule: less_induct)
  case less
  from less.prems have ne: "evs \<noteq> []" by auto
  show ?case
  proof (cases "time (last evs) < p")
    case False
    with less.prems ne have "evs' = evs"
      by (subst (asm) prune_loop_unfold) simp
    with ne show ?thesis by (intro exI [of _ "length evs"]) simp
  next
    case old: True
    show ?thesis
    proof (cases "length (butlast evs) < 3")
      case True
      with old less.prems ne have "evs' = butlast evs"
        by (subst (asm) prune_loop_unfold) simp
      with less.prems show ?thesis
        by (intro exI [of _ "length evs - 1"]) (simp add: butlast_conv_take)
    next
      case False
      with old less.prems ne have r: "prune_loop p (butlast evs) = Inr evs'"
        by (subst (asm) prune_loop_unfold) simp
      have "length (butlast evs) < length evs" "2 \<le> length (butlast evs)"
        using False less.prems by simp_all
      from less.hyps [OF this r] obtain n where
        n: "0 < n" "n \<le> length (butlast evs)" "evs' = take n (butlast evs)" by blast
      from n(2) less.prems(1) have "n < length evs" by simp
      with n(3) have "evs' = take n evs" by (simp add: take_butlast)
      with n(1) \<open>n < length evs\<close> show ?thesis by (intro exI [of _ n]) simp
    qed
  qed
qed

lemma prune_loop_spec:
  "3 \<le> length evs \<Longrightarrow> prune_loop p evs = Inr (prune_spec p evs) \<and> 2 \<le> length (prune_spec p evs)"
proof (induction "length evs" arbitrary: evs rule: less_induct)
  case less
  show ?case
  proof (cases "time (last evs) < p")
    case False
    with less.prems show ?thesis
      by (subst prune_loop_unfold, subst prune_spec.simps, subst prune_spec.simps)
         (auto simp: Before_def)
  next
    case old: True
    show ?thesis
    proof (cases "length (butlast evs) < 3")
      case True
      with less.prems have l: "length (butlast evs) = 2" by simp
      then have "prune_spec p (butlast evs) = butlast evs"
        by (subst prune_spec.simps) simp
      with old True less.prems l show ?thesis
        by (subst prune_loop_unfold, subst prune_spec.simps, subst prune_spec.simps)
           (auto simp: Before_def)
    next
      case False
      have "length (butlast evs) < length evs" "3 \<le> length (butlast evs)"
        using False less.prems by simp_all
      from less.hyps [OF this] old False less.prems show ?thesis
        by (subst prune_loop_unfold, subst prune_spec.simps, subst (2) prune_spec.simps)
           (auto simp: Before_def)
    qed
  qed
qed

subsection \<open>Update and sequences of Updates\<close>

lemma word_pos_sub_iff: "(0 < a - b) = (a \<noteq> b)" for a b :: "64 word"
  by (simp add: word_neq_0_conv [symmetric])

lemma sint_minus_pos: "0 < sint d \<Longrightarrow> sint (- d) = - sint d" for d :: "64 word"
proof -
  assume pos: "0 < sint d"
  have "sint d < 2 ^ 63" using sint_lt [of d] by simp
  with pos have "signed_take_bit 63 (- sint d) = - sint d"
    by (intro signed_take_bit_int_eq_self) simp_all
  then show ?thesis by (simp add: sint_word_minus)
qed

lemma in_window_iff: "(Equal thn t \<or> Before thn t) = (thn \<le> t)"
  by (auto simp: Equal_def Before_def)

lemma Update_eq:
  assumes "prune_loop (Add now (- Timeout w))
             (\<lparr>time = now, entry.total = Watermeter.total w + d\<rparr> # events w) = Inr evs"
  shows "Update w now d =
     Inr (w\<lparr>Watermeter.total := Watermeter.total w + d, events := evs,
            lastGallon := (if (Watermeter.total w + d) div 1000 \<noteq> Watermeter.total w div 1000
                           then \<lparr>time = now, entry.total = Watermeter.total w + d\<rparr>
                           else lastGallon w)\<rparr>,
          (if Change w then [Change_call] else []) @
          (if (Watermeter.total w + d) div 1000 \<noteq> Watermeter.total w div 1000 \<and> Usage w
           then [Usage_call ((Watermeter.total w + d) div 1000)
                   (Usage_flow \<lparr>time = now, entry.total = Watermeter.total w + d\<rparr> (lastGallon w))]
           else []))"
  using assms by (simp add: Update_def Let_def word_pos_sub_iff)

lemma Update_returns:
  "\<exists>evs. prune_loop (Add now (- Timeout w))
             (\<lparr>time = now, entry.total = Watermeter.total w + d\<rparr> # events w) = Inr evs"
  by (rule prune_loop_returns) simp

lemma Update_cases:
  obtains evs where
    "prune_loop (Add now (- Timeout w))
       (\<lparr>time = now, entry.total = Watermeter.total w + d\<rparr> # events w) = Inr evs"
    "Update w now d =
     Inr (w\<lparr>Watermeter.total := Watermeter.total w + d, events := evs,
            lastGallon := (if (Watermeter.total w + d) div 1000 \<noteq> Watermeter.total w div 1000
                           then \<lparr>time = now, entry.total = Watermeter.total w + d\<rparr>
                           else lastGallon w)\<rparr>,
          (if Change w then [Change_call] else []) @
          (if (Watermeter.total w + d) div 1000 \<noteq> Watermeter.total w div 1000 \<and> Usage w
           then [Usage_call ((Watermeter.total w + d) div 1000)
                   (Usage_flow \<lparr>time = now, entry.total = Watermeter.total w + d\<rparr> (lastGallon w))]
           else []))"
  using Update_returns Update_eq by blast

lemma Update_front:
  assumes "events w \<noteq> []" "Update w now d = Inr (w', calls)"
  shows "Watermeter.total w' = Watermeter.total w + d"
    and "Timeout w' = Timeout w"
    and "\<exists>n. 0 < n \<and> events w' = take n (\<lparr>time = now, entry.total = Watermeter.total w'\<rparr> # events w)"
proof -
  obtain evs where
    p: "prune_loop (Add now (- Timeout w))
       (\<lparr>time = now, entry.total = Watermeter.total w + d\<rparr> # events w) = Inr evs"
    and e: "Update w now d =
     Inr (w\<lparr>Watermeter.total := Watermeter.total w + d, events := evs,
            lastGallon := (if (Watermeter.total w + d) div 1000 \<noteq> Watermeter.total w div 1000
                           then \<lparr>time = now, entry.total = Watermeter.total w + d\<rparr>
                           else lastGallon w)\<rparr>,
          (if Change w then [Change_call] else []) @
          (if (Watermeter.total w + d) div 1000 \<noteq> Watermeter.total w div 1000 \<and> Usage w
           then [Usage_call ((Watermeter.total w + d) div 1000)
                   (Usage_flow \<lparr>time = now, entry.total = Watermeter.total w + d\<rparr> (lastGallon w))]
           else []))"
    by (rule Update_cases)
  from e assms(2) have
    u: "Watermeter.total w' = Watermeter.total w + d" "events w' = evs" "Timeout w' = Timeout w"
    by auto
  show "Watermeter.total w' = Watermeter.total w + d" by fact
  show "Timeout w' = Timeout w" by fact
  have "2 \<le> length (\<lparr>time = now, entry.total = Watermeter.total w + d\<rparr> # events w)"
    using assms(1) by (cases "events w") simp_all
  from prune_loop_take [OF this p] u
  show "\<exists>n. 0 < n \<and> events w' = take n (\<lparr>time = now, entry.total = Watermeter.total w'\<rparr> # events w)"
    by auto
qed

lemma Updates_front:
  "events w \<noteq> [] \<Longrightarrow> hd (events w) = \<lparr>time = t, entry.total = Watermeter.total w\<rparr> \<Longrightarrow>
     \<exists>w'. Updates w us = Inr w' \<and> events w' \<noteq> [] \<and>
          hd (events w') = \<lparr>time = last (t # map fst us), entry.total = Watermeter.total w'\<rparr>"
proof (induction us arbitrary: w t)
  case Nil
  then show ?case by simp
next
  case (Cons u us)
  obtain now d where u: "u = (now, d)" by (cases u)
  obtain w1 calls where w1: "Update w now d = Inr (w1, calls)"
    by (rule Update_cases [of now w d]) blast
  from Update_front(3) [OF Cons.prems(1) w1] obtain n where
    n: "0 < n" "events w1 = take n (\<lparr>time = now, entry.total = Watermeter.total w1\<rparr> # events w)"
    by blast
  then have "events w1 \<noteq> []" "hd (events w1) = \<lparr>time = now, entry.total = Watermeter.total w1\<rparr>"
    by (cases n; simp)+
  from Cons.IH [OF this] u w1 show ?case by simp
qed

lemma Updates_total:
  "Updates w us = Inr w' \<Longrightarrow>
     unat (Watermeter.total w') =
       (unat (Watermeter.total w) + sum_list (map (\<lambda>(now, d). unat d) us)) mod 2 ^ 64"
proof (induction us arbitrary: w)
  case Nil
  then show ?case using unsigned_less [of "Watermeter.total w", where ?'a = nat] by simp
next
  case (Cons u us)
  obtain now d where u: "u = (now, d)" by (cases u)
  obtain w1 calls where w1: "Update w now d = Inr (w1, calls)"
    and t1: "Watermeter.total w1 = Watermeter.total w + d"
    by (rule Update_cases [of now w d]) simp
  from Cons.prems u w1 have "Updates w1 us = Inr w'" by simp
  from Cons.IH [OF this] have
    "unat (Watermeter.total w') =
       (unat (Watermeter.total w + d) + sum_list (map (\<lambda>(now, d). unat d) us)) mod 2 ^ 64"
    by (simp add: t1)
  also have "\<dots> = ((unat (Watermeter.total w) + unat d) mod 2 ^ 64
                    + sum_list (map (\<lambda>(now, d). unat d) us)) mod 2 ^ 64"
    by (simp add: unat_word_ariths)
  also have "\<dots> = (unat (Watermeter.total w) + unat d
                    + sum_list (map (\<lambda>(now, d). unat d) us)) mod 2 ^ 64"
    by (rule mod_add_left_eq)
  finally show ?case by (simp add: u add.assoc)
qed

subsection \<open>Totals and the front of the history\<close>

lemma Init_simps:
  "events (Init w now initial) = [\<lparr>time = now, entry.total = initial\<rparr>]"
  "Watermeter.total (Init w now initial) = initial"
  "lastGallon (Init w now initial) = \<lparr>time = now, entry.total = initial\<rparr>"
  "Timeout (Init w now initial) = Timeout w"
  "Usage (Init w now initial) = Usage w"
  "Change (Init w now initial) = Change w"
  by (simp_all add: Init_def Let_def)

text \<open>
  C1 (amended). For every initial total and every finite sequence of Update calls,
  a following GetGallons returns the floor of the sum of the initial total and the
  deltas, taken modulo 2^64, divided by 1000. Below 2^64 the sum is returned as it
  is.
\<close>

theorem GetGallons_after_Updates:
  "\<exists>w'. Updates (Init w0 t0 initial) us = Inr w' \<and>
        unat (fst (GetGallons w')) =
          ((unat initial + sum_list (map (\<lambda>(now, d). unat d) us)) mod 2 ^ 64) div 1000"
proof -
  have "events (Init w0 t0 initial) \<noteq> []"
    "hd (events (Init w0 t0 initial)) =
       \<lparr>time = t0, entry.total = Watermeter.total (Init w0 t0 initial)\<rparr>"
    by (simp_all add: Init_simps)
  from Updates_front [OF this, of us] obtain w' where
    w': "Updates (Init w0 t0 initial) us = Inr w'" by blast
  from Updates_total [OF this] have
    "unat (Watermeter.total w') =
       (unat initial + sum_list (map (\<lambda>(now, d). unat d) us)) mod 2 ^ 64"
    by (simp add: Init_simps)
  then have "unat (fst (GetGallons w')) =
          ((unat initial + sum_list (map (\<lambda>(now, d). unat d) us)) mod 2 ^ 64) div 1000"
    by (simp add: GetGallons_def unat_div)
  with w' show ?thesis by blast
qed

lemma prune_loop_keep:
  "evs \<noteq> [] \<Longrightarrow> \<not> time (last evs) < p \<Longrightarrow> prune_loop p evs = Inr evs"
  by (subst prune_loop_unfold) simp

text \<open>Concrete runs: the total at 2^64 - 1 and a constant clock.\<close>

lemma Update_at_largest_total:
  "Update (Init (new_Watermeter 0 False False) 0 18446744073709551615) 0 1 =
     Inr (\<lparr>Timeout = 0, Usage = False, Change = False,
           lastGallon = \<lparr>time = 0, entry.total = 0\<rparr>,
           Watermeter.total = 0,
           events = [\<lparr>time = 0, entry.total = 0\<rparr>, \<lparr>time = 0, entry.total = 18446744073709551615\<rparr>]\<rparr>, [])"
  by (simp add: Update_def Init_def new_Watermeter_def Add_def prune_loop_keep Let_def
      word_greater_zero_iff)

text \<open>
  C1 as stated fails when the uint64 total wraps around: from the initial total
  2^64 - 1 one Update(1) gives GetGallons = 0, not floor(2^64 / 1000).
\<close>

theorem GetGallons_wraps_counterexample:
  "\<not> isl (Updates (Init (new_Watermeter 0 False False) 0 18446744073709551615) [(0, 1)]) \<and>
   unat (fst (GetGallons (projr (Updates (Init (new_Watermeter 0 False False) 0 18446744073709551615) [(0, 1)]))))
     \<noteq> (unat (18446744073709551615 :: uint64) + unat (1 :: uint64)) div 1000"
  by (simp add: Update_at_largest_total GetGallons_def)

lemma Updates_append:
  "Updates w (us @ vs) = (case Updates w us of Inl err \<Rightarrow> Inl err | Inr w1 \<Rightarrow> Updates w1 vs)"
  by (induction w us rule: Updates.induct) (auto split: sum.splits)

text \<open>
  C10. After Init and after every Update of a sequence, no pruning loop has met an
  empty list (the result is \<open>Inr\<close>), the history is not empty, and its front
  entry carries the instant of the last call and the current running total.
  An Update leaves a non-empty front part of the list that it pushed its entry on:
  the entry appended by the call is never the one removed.
\<close>

theorem history_front_is_current:
  "(\<exists>w'. Updates (Init w0 t0 initial) us = Inr w' \<and> events w' \<noteq> [] \<and>
        hd (events w') = \<lparr>time = last (t0 # map fst us), entry.total = Watermeter.total w'\<rparr>) \<and>
   (\<exists>w w' n. Updates (Init w0 t0 initial) us = Inr w \<and>
        Updates (Init w0 t0 initial) (us @ [(now, d)]) = Inr w' \<and> 0 < n \<and>
        events w' = take n (\<lparr>time = now, entry.total = Watermeter.total w'\<rparr> # events w))"
proof -
  have "events (Init w0 t0 initial) \<noteq> []"
    "hd (events (Init w0 t0 initial)) =
       \<lparr>time = t0, entry.total = Watermeter.total (Init w0 t0 initial)\<rparr>"
    by (simp_all add: Init_simps)
  from Updates_front [OF this, of us] obtain w where
    w: "Updates (Init w0 t0 initial) us = Inr w" "events w \<noteq> []"
      "hd (events w) = \<lparr>time = last (t0 # map fst us), entry.total = Watermeter.total w\<rparr>"
    by blast
  obtain w' calls where u: "Update w now d = Inr (w', calls)"
    by (rule Update_cases [of now w d]) blast
  from Update_front(3) [OF w(2) u] obtain n where
    n: "0 < n" "events w' = take n (\<lparr>time = now, entry.total = Watermeter.total w'\<rparr> # events w)"
    by blast
  have "Updates (Init w0 t0 initial) (us @ [(now, d)]) = Inr w'"
    by (simp add: Updates_append w(1) u)
  with w n show ?thesis by blast
qed

text \<open>
  C8. GetFlow and GetGallons return the struct as they found it: the total, the
  history and lastGallon (and every other field) are unchanged.
\<close>

theorem reads_leave_state:
  "snd (GetFlow w now duration) = w \<and> snd (GetGallons w) = w"
  by (simp add: GetFlow_def GetGallons_def GetFlow_reads_def)

subsection \<open>GetFlow\<close>

lemma entry_overwrite: "start\<lparr>time := time e, entry.total := entry.total e\<rparr> = (e::entry)"
  by simp

lemma GetFlow_loop_sorted:
  "sorted (map time (rev evs)) \<Longrightarrow>
     GetFlow_loop thn evs start =
       (case oldest_in_window_spec thn evs of None \<Rightarrow> start | Some e \<Rightarrow> e)"
proof (induction evs arbitrary: start)
  case Nil
  then show ?case by (simp add: oldest_in_window_spec_def)
next
  case (Cons e evs)
  from Cons.prems have s: "sorted (map time (rev evs))"
    and le: "\<forall>x\<in>set evs. time x \<le> time e"
    by (auto simp: sorted_append)
  show ?case
  proof (cases "thn \<le> time e")
    case True
    have "GetFlow_loop thn (e # evs) start = GetFlow_loop thn evs e"
      using True by (simp add: in_window_iff entry_overwrite)
    also have "\<dots> = (case oldest_in_window_spec thn evs of None \<Rightarrow> e | Some x \<Rightarrow> x)"
      by (rule Cons.IH [OF s])
    also have "\<dots> = (case oldest_in_window_spec thn (e # evs) of None \<Rightarrow> start | Some x \<Rightarrow> x)"
      using True by (simp add: oldest_in_window_spec_def split: list.splits)
    finally show ?thesis .
  next
    case False
    with le have "filter (\<lambda>x. thn \<le> time x) evs = []"
      by (auto simp: filter_empty_conv)
    with False show ?thesis
      by (simp add: in_window_iff oldest_in_window_spec_def)
  qed
qed

lemma GetFlow_pos:
  assumes "0 < sint duration"
  shows "fst (GetFlow w now duration) =
     Fin (of_nat (unat (Watermeter.total w -
            entry.total (GetFlow_loop (now - sint duration) (events w)
               \<lparr>time = now, entry.total = Watermeter.total w\<rparr>))) / 1000 /
          (of_int (sint duration) / 60000000000))"
  using assms
  by (simp add: GetFlow_def GetFlow_reads_def GetFlow_locked_def GetFlow_return_def
      float64_of_uint64_def Minutes_def Add_def sint_minus_pos Let_def
      del: of_int_sint of_nat_unat)

text \<open>
  C2 (amended). For every accumulator state whose history timestamps are
  non-decreasing from the oldest to the newest sample, and every positive duration
  d, GetFlow(d) returns (current_total - start.total) / 1000 / minutes(d), where
  start is the oldest history sample whose timestamp is >= now - d; if no sample
  qualifies, start is the current (now, total) point and the result is zero.
\<close>

theorem GetFlow_oldest_in_window:
  assumes "sorted (map time (rev (events w)))" and "0 < sint duration"
  shows "fst (GetFlow w now duration) = GetFlow_spec w now duration \<and>
         (oldest_in_window_spec (now - sint duration) (events w) = None \<longrightarrow>
            fst (GetFlow w now duration) = Fin 0)"
  by (simp add: GetFlow_pos [OF assms(2)] GetFlow_loop_sorted [OF assms(1)] GetFlow_spec_def
      Let_def split: option.splits)

text \<open>
  C7. For every accumulator state, reachable or not, and every strictly positive
  duration d, GetFlow(d) returns a finite, non-negative value: the volume delta is
  an unsigned integer.
\<close>

theorem GetFlow_nonneg:
  "0 < sint duration \<Longrightarrow> \<exists>r. fst (GetFlow w now duration) = Fin r \<and> 0 \<le> r"
proof -
  assume d: "0 < sint duration"
  have "0 \<le> (of_nat n :: rat) / 1000 / (of_int (sint duration) / 60000000000)" for n
    using d by (intro divide_nonneg_pos divide_nonneg_nonneg) (simp_all del: of_int_sint)
  then show ?thesis
    by (simp add: GetFlow_pos [OF d] del: of_int_sint of_nat_unat)
qed

text \<open>Init(0) at instant 0 and Update(1000) one minute later, the Usage callback set.\<close>

lemma Update_gallon_after_minute:
  "Update (Init (new_Watermeter minute True False) 0 0) 60000000000 1000 =
     Inr (\<lparr>Timeout = minute, Usage = True, Change = False,
           lastGallon = \<lparr>time = 60000000000, entry.total = 1000\<rparr>,
           Watermeter.total = 1000,
           events = [\<lparr>time = 60000000000, entry.total = 1000\<rparr>, \<lparr>time = 0, entry.total = 0\<rparr>]\<rparr>,
          [Usage_call 1 (Fin 1)])"
  by (simp add: Update_def Init_def new_Watermeter_def Add_def prune_loop_keep Let_def
      word_greater_zero_iff minute_def Usage_flow_def float64_of_uint64_def Minutes_def Sub_def)

text \<open>
  The hypotheses of C2 hold after Init at 0 and Update(1000) one minute later, and
  GetFlow over the last minute is then 1 gallon per minute.
\<close>

theorem GetFlow_oldest_in_window_witness:
  "sorted (map time (rev (events (projr (Updates (Init (new_Watermeter minute True False) 0 0)
       [(60000000000, 1000)]))))) \<and>
   0 < sint minute \<and>
   fst (GetFlow (projr (Updates (Init (new_Watermeter minute True False) 0 0)
       [(60000000000, 1000)])) 60000000000 minute) = Fin 1 \<and>
   GetFlow_spec (projr (Updates (Init (new_Watermeter minute True False) 0 0)
       [(60000000000, 1000)])) 60000000000 minute = Fin 1"
proof -
  let ?w = "projr (Updates (Init (new_Watermeter minute True False) 0 0) [(60000000000, 1000)])"
  have w: "?w = \<lparr>Timeout = minute, Usage = True, Change = False,
           lastGallon = \<lparr>time = 60000000000, entry.total = 1000\<rparr>,
           Watermeter.total = 1000,
           events = [\<lparr>time = 60000000000, entry.total = 1000\<rparr>, \<lparr>time = 0, entry.total = 0\<rparr>]\<rparr>"
    by (simp add: Update_gallon_after_minute)
  have s: "sorted (map time (rev (events ?w)))" unfolding w by simp
  have d: "0 < sint minute" by (simp add: minute_def)
  have "GetFlow_spec ?w 60000000000 minute = Fin 1"
    unfolding w by (simp add: GetFlow_spec_def oldest_in_window_spec_def minute_def)
  with s d GetFlow_oldest_in_window [OF s d, of 60000000000] show ?thesis by simp
qed

text \<open>The hypothesis of C7 at a duration of one minute.\<close>

theorem GetFlow_nonneg_witness:
  "0 < sint minute \<and>
   (\<exists>r. fst (GetFlow (projr (Updates (Init (new_Watermeter minute True False) 0 0)
       [(60000000000, 1000)])) 60000000000 minute) = Fin r \<and> 0 \<le> r)"
proof -
  have d: "0 < sint minute" by (simp add: minute_def)
  with GetFlow_nonneg [OF d] show ?thesis by simp
qed

text \<open>Init at minute 2 and an Update whose clock reading is instant 0.\<close>

lemma Update_clock_stepped_back:
  "Update (Init (new_Watermeter 0 False False) 120000000000 0) 0 1000 =
     Inr (\<lparr>Timeout = 0, Usage = False, Change = False,
           lastGallon = \<lparr>time = 0, entry.total = 1000\<rparr>,
           Watermeter.total = 1000,
           events = [\<lparr>time = 0, entry.total = 1000\<rparr>, \<lparr>time = 120000000000, entry.total = 0\<rparr>]\<rparr>,
          [])"
  by (simp add: Update_def Init_def new_Watermeter_def Add_def prune_loop_keep Let_def
      word_greater_zero_iff)

text \<open>
  C2 as stated fails on a history that is not ordered in time. Init at minute 2 and
  one Update(1000) at instant 0 (the clock has stepped back) leave the history
  [(0, 1000), (2 min, 0)]. GetFlow over one minute at minute 2 stops at the front
  entry, which is outside the window, and returns 0; the oldest sample with a
  timestamp >= now - d is (2 min, 0), for which the stated rate is 1.
\<close>

theorem GetFlow_unordered_history_counterexample:
  "0 < sint minute \<and>
   fst (GetFlow (projr (Updates (Init (new_Watermeter 0 False False) 120000000000 0) [(0, 1000)]))
          120000000000 minute) = Fin 0 \<and>
   oldest_in_window_spec (120000000000 - sint minute)
     (events (projr (Updates (Init (new_Watermeter 0 False False) 120000000000 0) [(0, 1000)])))
     = Some \<lparr>time = 120000000000, entry.total = 0\<rparr> \<and>
   GetFlow_spec (projr (Updates (Init (new_Watermeter 0 False False) 120000000000 0) [(0, 1000)]))
          120000000000 minute = Fin 1"
  by (simp add: Update_clock_stepped_back GetFlow_pos GetFlow_spec_def oldest_in_window_spec_def minute_def
      in_window_iff)

subsection \<open>The order of the history\<close>

lemma Updates_sorted:
  assumes "events w \<noteq> []"
    and "hd (events w) = \<lparr>time = t, entry.total = Watermeter.total w\<rparr>"
    and "sorted_wrt (\<lambda>a b. time b \<le> time a \<and> entry.total b \<le> entry.total a) (events w)"
    and "sorted (t # map fst us)"
    and "unat (Watermeter.total w) + sum_list (map (\<lambda>(now, d). unat d) us) < 2 ^ 64"
  shows "\<exists>w'. Updates w us = Inr w' \<and>
     sorted_wrt (\<lambda>a b. time b \<le> time a \<and> entry.total b \<le> entry.total a) (events w')"
  using assms
proof (induction us arbitrary: w t)
  case Nil
  then show ?case by simp
next
  case (Cons u us)
  let ?R = "\<lambda>a b. time b \<le> time a \<and> entry.total b \<le> entry.total a"
  obtain now d where u: "u = (now, d)" by (cases u)
  obtain w1 calls where w1: "Update w now d = Inr (w1, calls)"
    by (rule Update_cases [of now w d]) blast
  note t1 = Update_front(1) [OF Cons.prems(1) w1]
  from Update_front(3) [OF Cons.prems(1) w1] obtain n where
    n: "0 < n" "events w1 = take n (\<lparr>time = now, entry.total = Watermeter.total w1\<rparr> # events w)"
    by blast
  then have ne: "events w1 \<noteq> []"
    and hd1: "hd (events w1) = \<lparr>time = now, entry.total = Watermeter.total w1\<rparr>"
    by (cases n; simp)+
  from Cons.prems(4) u have tn: "t \<le> now" and s': "sorted (now # map fst us)" by simp_all
  from Cons.prems(5) u have
    no: "unat (Watermeter.total w) + unat d < 2 ^ 64"
    and rest: "unat (Watermeter.total w) + unat d + sum_list (map (\<lambda>(now, d). unat d) us) < 2 ^ 64"
    by simp_all
  from no have ua: "unat (Watermeter.total w + d) = unat (Watermeter.total w) + unat d"
    by (simp add: unat_add_lem [where ?'a = 64, simplified])
  then have le: "Watermeter.total w \<le> Watermeter.total w1"
    by (simp add: t1 word_le_nat_alt)
  obtain h rest' where ev: "events w = h # rest'" using Cons.prems(1) by (cases "events w") auto
  with Cons.prems(2) have h: "h = \<lparr>time = t, entry.total = Watermeter.total w\<rparr>" by simp
  have "\<forall>x\<in>set (events w). time x \<le> now \<and> entry.total x \<le> Watermeter.total w1"
    using Cons.prems(3) tn le unfolding ev h by auto
  with Cons.prems(3) have
    "sorted_wrt ?R (\<lparr>time = now, entry.total = Watermeter.total w1\<rparr> # events w)"
    by simp
  then have so: "sorted_wrt ?R (events w1)"
    unfolding n(2) by (rule sorted_wrt_take)
  have "unat (Watermeter.total w1) + sum_list (map (\<lambda>(now, d). unat d) us) < 2 ^ 64"
    using rest by (simp add: t1 ua)
  from Cons.IH [OF ne hd1 so s' this] u w1 show ?case by simp
qed

lemma sorted_wrt_oldest_first:
  "sorted_wrt (\<lambda>a b. time b \<le> time a \<and> entry.total b \<le> entry.total a) evs \<Longrightarrow>
     sorted (map time (rev evs)) \<and> sorted (map entry.total (rev evs))"
  by (induction evs) (auto simp: sorted_append)

lemma Updates_sorted_time:
  assumes "events w \<noteq> []"
    and "hd (events w) = \<lparr>time = t, entry.total = Watermeter.total w\<rparr>"
    and "sorted_wrt (\<lambda>a b. time b \<le> time a) (events w)"
    and "sorted (t # map fst us)"
  shows "\<exists>w'. Updates w us = Inr w' \<and> sorted_wrt (\<lambda>a b. time b \<le> time a) (events w')"
  using assms
proof (induction us arbitrary: w t)
  case Nil
  then show ?case by simp
next
  case (Cons u us)
  obtain now d where u: "u = (now, d)" by (cases u)
  obtain w1 calls where w1: "Update w now d = Inr (w1, calls)"
    by (rule Update_cases [of now w d]) blast
  from Update_front(3) [OF Cons.prems(1) w1] obtain n where
    n: "0 < n" "events w1 = take n (\<lparr>time = now, entry.total = Watermeter.total w1\<rparr> # events w)"
    by blast
  then have ne: "events w1 \<noteq> []"
    and hd1: "hd (events w1) = \<lparr>time = now, entry.total = Watermeter.total w1\<rparr>"
    by (cases n; simp)+
  from Cons.prems(4) u have tn: "t \<le> now" and s': "sorted (now # map fst us)" by simp_all
  obtain h rest' where ev: "events w = h # rest'" using Cons.prems(1) by (cases "events w") auto
  with Cons.prems(2) have h: "h = \<lparr>time = t, entry.total = Watermeter.total w\<rparr>" by simp
  have "\<forall>x\<in>set (events w). time x \<le> now"
    using Cons.prems(3) tn unfolding ev h by auto
  with Cons.prems(3) have
    "sorted_wrt (\<lambda>a b. time b \<le> time a)
       (\<lparr>time = now, entry.total = Watermeter.total w1\<rparr> # events w)"
    by simp
  then have so: "sorted_wrt (\<lambda>a b. time b \<le> time a) (events w1)"
    unfolding n(2) by (rule sorted_wrt_take)
  from Cons.IH [OF ne hd1 so s'] u w1 show ?case by simp
qed

lemma sorted_wrt_time_oldest_first:
  "sorted_wrt (\<lambda>a b. time b \<le> time a) evs \<Longrightarrow> sorted (map time (rev evs))"
  by (induction evs) (auto simp: sorted_append)

text \<open>
  C5 (amended). For every sequence of Update calls after Init, assuming that the
  time source returns non-decreasing instants, the history traversed from the
  oldest to the newest sample has non-decreasing timestamps, and, as long as the
  sum of the initial total and the deltas stays below 2^64, non-decreasing totals.
\<close>

theorem history_nondecreasing:
  assumes "sorted (t0 # map fst us)"
  shows "\<exists>w'. Updates (Init w0 t0 initial) us = Inr w' \<and>
     sorted (map time (rev (events w'))) \<and>
     (unat initial + sum_list (map (\<lambda>(now, d). unat d) us) < 2 ^ 64 \<longrightarrow>
        sorted (map entry.total (rev (events w'))))"
proof -
  have "\<exists>w'. Updates (Init w0 t0 initial) us = Inr w' \<and>
     sorted_wrt (\<lambda>a b. time b \<le> time a) (events w')"
    using assms by (intro Updates_sorted_time [where t = t0]) (simp_all add: Init_simps)
  then obtain w' where w': "Updates (Init w0 t0 initial) us = Inr w'"
    and st: "sorted (map time (rev (events w')))"
    using sorted_wrt_time_oldest_first by blast
  have "sorted (map entry.total (rev (events w')))"
    if "unat initial + sum_list (map (\<lambda>(now, d). unat d) us) < 2 ^ 64"
  proof -
    have "\<exists>w'. Updates (Init w0 t0 initial) us = Inr w' \<and>
       sorted_wrt (\<lambda>a b. time b \<le> time a \<and> entry.total b \<le> entry.total a) (events w')"
      using assms that by (intro Updates_sorted [where t = t0]) (simp_all add: Init_simps)
    with w' show ?thesis using sorted_wrt_oldest_first by auto
  qed
  with w' st show ?thesis by blast
qed

text \<open>The hypotheses of C5 at Init(0) at instant 0 and Update(1000) a minute later.\<close>

theorem history_nondecreasing_witness:
  "sorted ((0::int) # map fst [(60000000000::int, 1000::uint64)]) \<and>
   unat (0::uint64) + sum_list (map (\<lambda>(now, d). unat d) [(60000000000::int, 1000::uint64)]) < 2 ^ 64 \<and>
   (\<exists>w'. Updates (Init (new_Watermeter minute True False) 0 0) [(60000000000, 1000)] = Inr w' \<and>
     sorted (map time (rev (events w'))) \<and> sorted (map entry.total (rev (events w'))))"
proof -
  have a: "sorted ((0::int) # map fst [(60000000000::int, 1000::uint64)])" by simp
  have b: "unat (0::uint64) + sum_list (map (\<lambda>(now, d). unat d) [(60000000000::int, 1000::uint64)]) < 2 ^ 64"
    by simp
  from a b history_nondecreasing [OF a, of "new_Watermeter minute True False" 0] show ?thesis
    by blast
qed

text \<open>
  C5 as stated fails when the total wraps around: with a constant clock, Init at
  2^64 - 1 and Update(1) leave the totals 2^64 - 1, 0 from the oldest to the newest
  sample.
\<close>

theorem history_totals_wrap_counterexample:
  "sorted ((0::int) # map fst [(0::int, 1::uint64)]) \<and>
   \<not> isl (Updates (Init (new_Watermeter 0 False False) 0 18446744073709551615) [(0, 1)]) \<and>
   \<not> sorted (map entry.total (rev (events (projr
        (Updates (Init (new_Watermeter 0 False False) 0 18446744073709551615) [(0, 1)])))))"
  by (simp add: Update_at_largest_total)

subsection \<open>Whole-gallon crossings\<close>

lemma floor_increases_iff:
  fixes a d :: uint64
  assumes "unat a + unat d < 2 ^ 64"
  shows "((a + d) div 1000 \<noteq> a div 1000) = (unat (a div 1000) < unat ((a + d) div 1000))"
proof -
  from assms have ua: "unat (a + d) = unat a + unat d"
    by (simp add: unat_add_lem [where ?'a = 64, simplified])
  have "unat (a div 1000) \<le> unat ((a + d) div 1000)"
    by (simp add: unat_div ua div_le_mono)
  moreover have "((a + d) div 1000 \<noteq> a div 1000) = (unat ((a + d) div 1000) \<noteq> unat (a div 1000))"
    by (simp add: word_unat_eq_iff)
  ultimately show ?thesis by linarith
qed

lemma Sub_pos:
  "0 < now - t \<Longrightarrow> now - t < 2 ^ 63 \<Longrightarrow> sint (Sub now t) = now - t"
proof -
  assume a: "0 < now - t" "now - t < 2 ^ 63"
  then have "Sub now t = word_of_int (now - t)"
    by (simp add: Sub_def del: of_int_diff)
  moreover have "sint (word_of_int (now - t) :: 64 word) = signed_take_bit 63 (now - t)"
    by (simp add: sint_sbintrunc' del: of_int_diff)
  moreover have "signed_take_bit 63 (now - t) = now - t"
    using a by (intro signed_take_bit_int_eq_self) simp_all
  ultimately show ?thesis by simp
qed

lemma Usage_flow_pos:
  assumes "0 < time e - time l" and "time e - time l < 2 ^ 63"
  shows "Usage_flow e l =
     Fin (of_nat (unat (entry.total e - entry.total l)) / 1000 /
          (of_int (time e - time l) / 60000000000))"
  using assms
  by (simp add: Usage_flow_def float64_of_uint64_def Minutes_def Sub_pos Let_def
      del: of_int_sint of_nat_unat)

text \<open>
  C6 (amended). Every Update call returns, and: if floor(total / 1000) changes, the
  Usage callback, when one is registered, is started exactly once, with the new
  whole-gallon count and the flow (new_total - lastGallon.total) / 1000 /
  elapsed minutes since lastGallon.time, and lastGallon becomes the newly appended
  sample; if the floor does not change, the Usage callback is not started and
  lastGallon is unchanged. As long as the uint64 total does not wrap around in the
  call, the floor changes exactly when it strictly increases.
\<close>

theorem Update_whole_gallon:
  "\<exists>w' calls. Update w now d = Inr (w', calls) \<and>
     (if Watermeter.total w' div 1000 \<noteq> Watermeter.total w div 1000
      then lastGallon w' = \<lparr>time = now, entry.total = Watermeter.total w'\<rparr> \<and>
           filter (\<lambda>c. c \<noteq> Change_call) calls =
             (if Usage w
              then [Usage_call (Watermeter.total w' div 1000)
                      (Usage_flow \<lparr>time = now, entry.total = Watermeter.total w'\<rparr> (lastGallon w))]
              else [])
      else lastGallon w' = lastGallon w \<and> filter (\<lambda>c. c \<noteq> Change_call) calls = []) \<and>
     (0 < now - time (lastGallon w) \<and> now - time (lastGallon w) < 2 ^ 63 \<longrightarrow>
        Usage_flow \<lparr>time = now, entry.total = Watermeter.total w'\<rparr> (lastGallon w) =
          Fin (of_nat (unat (Watermeter.total w' - entry.total (lastGallon w))) / 1000 /
               (of_int (now - time (lastGallon w)) / 60000000000))) \<and>
     (unat (Watermeter.total w) + unat d < 2 ^ 64 \<longrightarrow>
        (Watermeter.total w' div 1000 \<noteq> Watermeter.total w div 1000) =
        (unat (Watermeter.total w div 1000) < unat (Watermeter.total w' div 1000)))"
proof -
  obtain evs where
    e: "Update w now d =
     Inr (w\<lparr>Watermeter.total := Watermeter.total w + d, events := evs,
            lastGallon := (if (Watermeter.total w + d) div 1000 \<noteq> Watermeter.total w div 1000
                           then \<lparr>time = now, entry.total = Watermeter.total w + d\<rparr>
                           else lastGallon w)\<rparr>,
          (if Change w then [Change_call] else []) @
          (if (Watermeter.total w + d) div 1000 \<noteq> Watermeter.total w div 1000 \<and> Usage w
           then [Usage_call ((Watermeter.total w + d) div 1000)
                   (Usage_flow \<lparr>time = now, entry.total = Watermeter.total w + d\<rparr> (lastGallon w))]
           else []))"
    by (rule Update_cases [of now w d])
  show ?thesis
    unfolding e
    using floor_increases_iff [of "Watermeter.total w" d]
      Usage_flow_pos [of "\<lparr>time = now, entry.total = Watermeter.total w + d\<rparr>" "lastGallon w"]
    by simp
qed

text \<open>
  The hypotheses of C6 at Init(0) at instant 0 and Update(1000) one minute later:
  the callback gets 1 gallon and 1 gallon per minute.
\<close>

theorem Update_whole_gallon_witness:
  "unat (Watermeter.total (Init (new_Watermeter minute True False) 0 0)) + unat (1000::uint64) < 2 ^ 64 \<and>
   (\<exists>w'. Update (Init (new_Watermeter minute True False) 0 0) 60000000000 1000 =
            Inr (w', [Usage_call 1 (Fin 1)]) \<and>
          lastGallon w' = \<lparr>time = 60000000000, entry.total = 1000\<rparr> \<and>
          Usage_flow \<lparr>time = 60000000000, entry.total = Watermeter.total w'\<rparr>
            (lastGallon (Init (new_Watermeter minute True False) 0 0)) = Fin 1 \<and>
          unat (Watermeter.total (Init (new_Watermeter minute True False) 0 0) div 1000)
            < unat (Watermeter.total w' div 1000))"
proof -
  have a: "unat (Watermeter.total (Init (new_Watermeter minute True False) 0 0)) + unat (1000::uint64) < 2 ^ 64"
    by (simp add: Init_simps)
  from Update_whole_gallon [of "Init (new_Watermeter minute True False) 0 0" 60000000000 1000]
  show ?thesis unfolding Update_gallon_after_minute using a by (simp add: Init_simps)
qed

text \<open>
  C6 as stated fails when the total wraps around: from the total 2^64 - 1,
  Update(1) takes floor(total / 1000) from 18446744073709551 down to 0, the floor
  does not increase, and yet the Usage callback is started with 0 gallons and
  lastGallon changes.
\<close>

theorem Update_wrap_counterexample:
  "\<not> unat (Watermeter.total (Init (new_Watermeter minute True False) 0 18446744073709551615) div 1000)
       < unat ((Watermeter.total (Init (new_Watermeter minute True False) 0 18446744073709551615) + 1) div 1000) \<and>
   snd (projr (Update (Init (new_Watermeter minute True False) 0 18446744073709551615) 60000000000 1)) =
     [Usage_call 0 (Fin (1 / 1000))] \<and>
   lastGallon (fst (projr (Update (Init (new_Watermeter minute True False) 0 18446744073709551615) 60000000000 1)))
     \<noteq> lastGallon (Init (new_Watermeter minute True False) 0 18446744073709551615)"
  by (simp add: Update_def Init_def new_Watermeter_def Add_def prune_loop_unfold Let_def
      word_greater_zero_iff Usage_flow_def float64_of_uint64_def Minutes_def Sub_def minute_def)

subsection \<open>The number of samples kept\<close>

text \<open>
  C3 (amended). After Init the history contains exactly one sample. An Update on a
  history of at least 2 samples, whatever Timeout and the elapsed time are, leaves
  at least 2 samples, and its pruning is the one of the design: the oldest sample
  is removed while the history holds more than 2 samples and the oldest timestamp
  is strictly before \<open>now.Add(-Timeout)\<close>.
\<close>

theorem history_floor:
  "length (events (Init w0 t0 initial)) = 1 \<and>
   (2 \<le> length (events w) \<longrightarrow>
      (\<exists>w' calls. Update w now d = Inr (w', calls) \<and> 2 \<le> length (events w') \<and>
         events w' = prune_spec (Add now (- Timeout w))
                       (\<lparr>time = now, entry.total = Watermeter.total w + d\<rparr> # events w)))"
proof -
  have "\<exists>w' calls. Update w now d = Inr (w', calls) \<and> 2 \<le> length (events w') \<and>
         events w' = prune_spec (Add now (- Timeout w))
                       (\<lparr>time = now, entry.total = Watermeter.total w + d\<rparr> # events w)"
    if l: "2 \<le> length (events w)"
  proof -
    let ?evs = "\<lparr>time = now, entry.total = Watermeter.total w + d\<rparr> # events w"
    from l have "3 \<le> length ?evs" by simp
    from prune_loop_spec [OF this, of "Add now (- Timeout w)"]
    have p: "prune_loop (Add now (- Timeout w)) ?evs = Inr (prune_spec (Add now (- Timeout w)) ?evs)"
      and k: "2 \<le> length (prune_spec (Add now (- Timeout w)) ?evs)"
      by simp_all
    from Update_eq [OF p] k show ?thesis by simp
  qed
  then show ?thesis by (simp add: Init_simps)
qed

lemma prune_spec_floor_of_two:
  "prune_spec 120000000000
     [\<lparr>time = 180000000000, entry.total = 1500\<rparr>,
      \<lparr>time = 60000000000, entry.total = 1000\<rparr>, \<lparr>time = 0, entry.total = 0\<rparr>] =
     [\<lparr>time = 180000000000, entry.total = 1500\<rparr>, \<lparr>time = 60000000000, entry.total = 1000\<rparr>]"
  by (subst prune_spec.simps, subst prune_spec.simps) (simp add: Before_def)

text \<open>
  The hypothesis of C3 on the history [(1 min, 1000), (0, 0)] with a Timeout of one
  minute: Update(500) at minute 3 removes (0, 0) and keeps (1 min, 1000), which is
  older than the pruning instant as well.
\<close>

theorem history_floor_witness:
  "2 \<le> length (events (projr (Updates (Init (new_Watermeter minute True False) 0 0)
       [(60000000000, 1000)]))) \<and>
   (\<exists>w' calls. Update (projr (Updates (Init (new_Watermeter minute True False) 0 0)
       [(60000000000, 1000)])) 180000000000 500 = Inr (w', calls) \<and>
      events w' = [\<lparr>time = 180000000000, entry.total = 1500\<rparr>,
                   \<lparr>time = 60000000000, entry.total = 1000\<rparr>])"
proof -
  let ?w = "projr (Updates (Init (new_Watermeter minute True False) 0 0) [(60000000000, 1000)])"
  have w: "?w = \<lparr>Timeout = minute, Usage = True, Change = False,
           lastGallon = \<lparr>time = 60000000000, entry.total = 1000\<rparr>,
           Watermeter.total = 1000,
           events = [\<lparr>time = 60000000000, entry.total = 1000\<rparr>, \<lparr>time = 0, entry.total = 0\<rparr>]\<rparr>"
    by (simp add: Update_gallon_after_minute)
  have l: "2 \<le> length (events ?w)" unfolding w by simp
  have "Add 180000000000 (- Timeout ?w) = 120000000000"
    unfolding w by (simp add: Add_def minute_def)
  with history_floor [of "new_Watermeter minute True False" 0 0 ?w 180000000000 500] l
  show ?thesis
    unfolding w by (simp add: prune_spec_floor_of_two) blast
qed

text \<open>C3 as stated fails after Init: the history holds one sample.\<close>

theorem history_floor_counterexample:
  "\<not> 2 \<le> length (events (Init (new_Watermeter minute False False) 0 0))"
  by (simp add: Init_simps)

text \<open>
  The body of the pruning loop runs once before the length is tested, so an Update
  on a history of one sample can end with one sample: Init at 0 with a Timeout of
  one minute, then Update(500) at minute 2.
\<close>

lemma first_Update_leaves_one_sample:
  "Update (Init (new_Watermeter minute False False) 0 0) 120000000000 500 =
     Inr (\<lparr>Timeout = minute, Usage = False, Change = False,
           lastGallon = \<lparr>time = 0, entry.total = 0\<rparr>,
           Watermeter.total = 500,
           events = [\<lparr>time = 120000000000, entry.total = 500\<rparr>]\<rparr>, [])"
  by (simp add: Update_def Init_def new_Watermeter_def Add_def prune_loop_unfold Let_def
      word_greater_zero_iff minute_def)

subsection \<open>GetFlow beside a concurrent Update\<close>

text \<open>Without a change between the reads and the loop it is GetFlow itself.\<close>

lemma GetFlow_between_same: "GetFlow_between w w now duration = fst (GetFlow w now duration)"
  by (simp add: GetFlow_between_def GetFlow_def split: prod.splits)

lemma Update_beside_GetFlow:
  "Update (Init (new_Watermeter minute False False) 0 0) 10 1000 =
     Inr (\<lparr>Timeout = minute, Usage = False, Change = False,
           lastGallon = \<lparr>time = 10, entry.total = 1000\<rparr>,
           Watermeter.total = 1000,
           events = [\<lparr>time = 10, entry.total = 1000\<rparr>, \<lparr>time = 0, entry.total = 0\<rparr>]\<rparr>, [])"
  by (simp add: Update_def Init_def new_Watermeter_def Add_def prune_loop_keep Let_def
      word_greater_zero_iff minute_def)

text \<open>
  C9 does not hold of the code. GetFlow reads \<open>w.total\<close> into end and start
  before it takes the mutex, and GetGallons reads it without the mutex. After
  Init(0) at instant 0, let a call GetFlow(5 ns) at instant 10 do its reads (the
  total is 0), let an Update(1000) at instant 10 run its locked part next, and let
  GetFlow then take the mutex and walk the history. On the struct before the
  Update and on the struct after it the flow is 0; the interleaved call subtracts
  the new sample's total 1000 from the old total 0 and returns the flow of
  2^64 - 1000 units.
\<close>

theorem GetFlow_torn_read:
  "fst (GetFlow (Init (new_Watermeter minute False False) 0 0) 10 5) = Fin 0 \<and>
   fst (GetFlow (fst (projr (Update (Init (new_Watermeter minute False False) 0 0) 10 1000))) 10 5)
     = Fin 0 \<and>
   GetFlow_between (Init (new_Watermeter minute False False) 0 0)
     (fst (projr (Update (Init (new_Watermeter minute False False) 0 0) 10 1000))) 10 5
     = Fin (18446744073709550616 / 1000 / (5 / 60000000000))"
  unfolding Update_beside_GetFlow
  by (simp add: GetFlow_pos GetFlow_between_def GetFlow_reads_def GetFlow_locked_def
      GetFlow_return_def Init_simps in_window_iff Add_def float64_of_uint64_def Minutes_def)

subsection \<open>Division by zero in the two flows\<close>

lemma of_unat_pos: "(0 < (of_nat (unat x) :: rat)) = (x \<noteq> 0)"
  by (simp add: unat_gt_0 del: of_nat_unat)

text \<open>
  Neither division is guarded. With a zero duration GetFlow divides by +0: the
  result is NaN when the volume delta is 0 and +Inf otherwise. A crossing with no
  elapsed time since lastGallon does the same with its own delta.
\<close>

lemma GetFlow_zero_duration:
  "fst (GetFlow w now 0) =
     (if entry.total (GetFlow_loop now (events w) \<lparr>time = now, entry.total = Watermeter.total w\<rparr>)
         = Watermeter.total w
      then NaN else PInf)"
  by (simp add: GetFlow_def GetFlow_reads_def GetFlow_locked_def GetFlow_return_def
      float64_of_uint64_def Minutes_def Add_def Let_def of_unat_pos unat_eq_0
      del: of_nat_unat)

lemma Usage_flow_zero_elapsed:
  "time e = time l \<Longrightarrow>
     Usage_flow e l = (if entry.total e = entry.total l then NaN else PInf)"
  by (simp add: Usage_flow_def float64_of_uint64_def Minutes_def Sub_def Let_def of_unat_pos
      unat_eq_0 del: of_nat_unat)

end
